theory Spec2Isabelle
  imports Complex_Main
begin

section \<open>Steady-state binding equations of the notebook and the smFRET post\<close>

text \<open>
  The repository holds two computations.

  \<^item> \<^verbatim>\<open>posts/dimerization-kinetics/index.ipynb\<close> solves the monomer-dimer system
    with sympy, turns the two solutions into numeric functions (\<^verbatim>\<open>lambdas\<close>),
    evaluates them in the \<^verbatim>\<open>Page\<close> component and sweeps them over
    \<^verbatim>\<open>np.logspace(-1, 3, endpoint=True, num=100)\<close>.
  \<^item> The smFRET post computes \<^verbatim>\<open>th_P = 1 / (r + 1)\<close> and
    \<^verbatim>\<open>th_PL = 1 - th_P\<close> over \<^verbatim>\<open>r = np.logspace(-2, 2, 100, endpoint=True)\<close>.

  The numeric code is read in two ways.

  \<^item> Over the reals: the number each expression denotes. sympy's solution is symbolic,
    so for it this reading is exact. For the numeric functions it leaves rounding out;
    what numpy returns instead of a finite number (nan for the square root of a
    negative number, inf or nan for a division by zero, each with a warning and never
    an exception) is the value \<open>None\<close> of \<open>real option\<close>, and \<open>Some x\<close> is the finite
    value \<open>x\<close>. This reading is used at inputs where the doubles agree with it: the
    initial state of the Page component, the ratio 1, inputs that are not positive, and
    the fractions of the sweep to three decimals.
  \<^item> In binary64: the doubles the interpreter computes, every operation rounded to
    nearest with ties to even and overflowing to infinity. Statements about every
    positive input are settled in this reading.
\<close>

subsection \<open>Errors\<close>

text \<open>
  The specification names one error kind, \<open>InvalidInput\<close>. No statement of the source
  raises it: the source has no \<^verbatim>\<open>raise\<close> and no validation at all. Python itself
  raises \<open>ZeroDivisionError\<close> when a float is divided by zero; numpy does not.
\<close>

datatype error = InvalidInput | ZeroDivisionError

subsection \<open>The sympy system and its solution\<close>





subsection \<open>The lambdified solutions, over the reals\<close>

text \<open>
  \<^verbatim>\<open>lambdas = {s: sp.lambdify(inputs, sol[0][s]) for s in solve_for}\<close> with
  \<^verbatim>\<open>inputs = [PT, kD]\<close>: the expressions evaluated with numpy, here with the
  real number each operation denotes. numpy's square root of a negative number is nan,
  and nan goes through every arithmetic operation, so the value is not finite as soon
  as one of the two radicands is negative.
\<close>

definition np_sqrt :: "real \<Rightarrow> real option" where
  "np_sqrt x = (if x < 0 then None else Some (sqrt x))"

definition lambdas_P1 :: "real \<Rightarrow> real \<Rightarrow> real option" where
  "lambdas_P1 PT kD =
     (case (np_sqrt kD, np_sqrt (8 * PT + kD)) of
        (Some a, Some b) \<Rightarrow> Some (a * b / 4 - kD / 4)
      | _ \<Rightarrow> None)"

definition lambdas_P2 :: "real \<Rightarrow> real \<Rightarrow> real option" where
  "lambdas_P2 PT kD =
     (case (np_sqrt kD, np_sqrt (8 * PT + kD)) of
        (Some a, Some b) \<Rightarrow> Some (PT / 2 - a * b / 8 + kD / 8)
      | _ \<Rightarrow> None)"

text \<open>
  The \<^verbatim>\<open>Page\<close> component:
  \<^verbatim>\<open>ans = {k: ld(PT.value, kD.value) for k, ld in lambdas.items()}\<close>,
  shown as \<^verbatim>\<open>f'{k.name}: {v}'\<close>. The dictionary is kept as the list of its
  items, in the order of \<^verbatim>\<open>solve_for = [P1, P2]\<close>, under the symbols' names.
  This is the specification's \<^verbatim>\<open>solve_dimer\<close>.
\<close>

definition Page_ans :: "real \<Rightarrow> real \<Rightarrow> error + (string \<times> real option) list" where
  "Page_ans PT kD = Inr [(''P_1'', lambdas_P1 PT kD), (''P_2'', lambdas_P2 PT kD)]"

subsection \<open>The sweep of the notebook\<close>

text \<open>
  \<^verbatim>\<open>
  ld_total = sp.lambdify(inputs, sol[0][P1] + sol[0][P2])
  PT_values = np.logspace(-1, 3, endpoint=True, num=100)
  ans = {k: ld(PT_values, 1) / ld_total(PT_values, 1) for k, ld in lambdas.items()}
  df = pd.DataFrame(dict(PT=PT_values) | {k.name: v for k, v in ans.items()})
  \<close>
  numpy is a library, not part of the repository; \<open>linspace\<close> and \<open>logspace\<close> follow
  its implementation: with \<open>endpoint=True\<close> the step is \<open>(stop - start) / (num - 1)\<close>,
  sample \<open>i\<close> is \<open>i * step + start\<close>, the last sample is overwritten with \<open>stop\<close> when
  \<open>num > 1\<close>, and \<open>logspace\<close> raises the base 10 to these exponents.
  \<open>ld_total\<close> is the sum of the two solutions as the cell writes it; sympy collects
  the sum into \<open>PT / 2 + sqrt kD * sqrt (8 * PT + kD) / 8 - kD / 8\<close>, the same real number.
\<close>

definition linspace :: "real \<Rightarrow> real \<Rightarrow> nat \<Rightarrow> real list" where
  "linspace start stop num =
     map (\<lambda>i. if 1 < num \<and> i = num - 1 then stop
              else real i * ((stop - start) / real (num - 1)) + start)
       [0..<num]"

definition logspace :: "real \<Rightarrow> real \<Rightarrow> nat \<Rightarrow> real list" where
  "logspace start stop num = map (\<lambda>y. 10 powr y) (linspace start stop num)"

definition PT_values :: "real list" where
  "PT_values = logspace (- 1) 3 100"

definition ld_total :: "real \<Rightarrow> real \<Rightarrow> real option" where
  "ld_total PT kD =
     (case (np_sqrt kD, np_sqrt (8 * PT + kD)) of
        (Some a, Some b) \<Rightarrow> Some ((a * b / 4 - kD / 4) + (PT / 2 - a * b / 8 + kD / 8))
      | _ \<Rightarrow> None)"

text \<open>
  numpy's division of arrays: a zero divisor gives inf or nan (with a warning), and a
  value that is not finite stays so.
\<close>

definition np_divide :: "real option \<Rightarrow> real option \<Rightarrow> real option" where
  "np_divide a b =
     (case (a, b) of
        (Some x, Some y) \<Rightarrow> (if y = 0 then None else Some (x / y))
      | _ \<Rightarrow> None)"

text \<open>One row of the data frame: the columns \<^verbatim>\<open>PT\<close>, \<^verbatim>\<open>P_1\<close>, \<^verbatim>\<open>P_2\<close>.\<close>

record df_row =
  col_PT :: real
  col_P_1 :: "real option"
  col_P_2 :: "real option"

definition df_row_at :: "real \<Rightarrow> real \<Rightarrow> df_row" where
  "df_row_at kD x =
     \<lparr>col_PT = x,
      col_P_1 = np_divide (lambdas_P1 x kD) (ld_total x kD),
      col_P_2 = np_divide (lambdas_P2 x kD) (ld_total x kD)\<rparr>"

definition df :: "df_row list" where
  "df = map (df_row_at 1) PT_values"

text \<open>
  The same cell with its literals as parameters: the two exponents and the number of
  samples given to \<^verbatim>\<open>np.logspace\<close>, and the dissociation constant given to the
  lambdas. The specification's \<^verbatim>\<open>x_min_ratio\<close> and \<^verbatim>\<open>x_max_ratio\<close> are
  \<open>10 powr start\<close> and \<open>10 powr stop\<close>.
\<close>

definition sweep :: "real \<Rightarrow> real \<Rightarrow> real \<Rightarrow> nat \<Rightarrow> df_row list" where
  "sweep kD start stop num = map (df_row_at kD) (logspace start stop num)"

subsection \<open>The fractions of the smFRET post, over the reals\<close>

text \<open>
  \<^verbatim>\<open>
  r = np.logspace(-2, 2, 100, endpoint=True)
  th_P = 1 / ( r + 1)
  th_PL = 1 - th_P
  \<close>
  where, in the words of the post, \<open>r\<close> is the ratio of the ligand concentration to the
  dissociation constant. \<open>r\<close> is a numpy array, so \<open>r = - 1\<close> gives inf and no exception.
\<close>

definition th_P :: "real \<Rightarrow> real option" where
  "th_P r = np_divide (Some 1) (Some (r + 1))"

definition th_PL :: "real \<Rightarrow> real option" where
  "th_PL r = (case th_P r of None \<Rightarrow> None | Some p \<Rightarrow> Some (1 - p))"

definition r_values :: "real list" where
  "r_values = logspace (- 2) 2 100"

text \<open>
  The two fractions at one ratio, under the names of the data frame's columns. This is
  the specification's \<^verbatim>\<open>solve_hetero_binding\<close>, at
  \<open>r = ligand_concentration / dissociation_constant\<close>.
\<close>

definition fractions :: "real \<Rightarrow> error + (string \<times> real option) list" where
  "fractions r = Inr [(''P'', th_P r), (''PL'', th_PL r)]"

text \<open>
  The columns \<^verbatim>\<open>L0/kd\<close>, \<^verbatim>\<open>P\<close> and \<^verbatim>\<open>PL\<close> of the post's data frame.
\<close>

definition df_post :: "(real \<times> real option \<times> real option) list" where
  "df_post = map (\<lambda>r. (r, th_P r, th_PL r)) r_values"

subsection \<open>Reading a result\<close>

text \<open>\<open>approx tol v c\<close>: the value \<open>v\<close> is finite and within \<open>tol\<close> of \<open>c\<close>.\<close>

definition approx :: "real \<Rightarrow> real option \<Rightarrow> real \<Rightarrow> bool" where
  "approx tol v c = (case v of None \<Rightarrow> False | Some x \<Rightarrow> \<bar>x - c\<bar> \<le> tol)"

text \<open>
  \<open>species name res\<close>: the value shown for the species \<open>name\<close>; \<open>None\<close> also when the
  call raised or the name is missing.
\<close>

definition species :: "string \<Rightarrow> error + (string \<times> real option) list \<Rightarrow> real option" where
  "species name res =
     (case res of
        Inl e \<Rightarrow> None
      | Inr items \<Rightarrow> (case map_of items name of None \<Rightarrow> None | Some v \<Rightarrow> v))"

subsection \<open>binary64 arithmetic\<close>

text \<open>
  A double is a finite number, an infinity or nan. \<open>Fin x\<close> is the finite double of
  value \<open>x\<close>. The sign of a zero is not kept: it would show only in a division by a
  computed zero, and the one such division of the source, \<open>1 / (r + 1)\<close>, has a zero
  divisor only at \<open>r = - 1\<close>, where the sum is \<open>+0\<close>.
\<close>

datatype double = Fin real | PInf | MInf | NaN

text \<open>
  Rounding to nearest, ties to even. \<open>expo x\<close> is the exponent of the binade of \<open>x\<close>, not
  below that of the subnormal numbers; \<open>ulp x\<close> is the spacing of the doubles there
  (53 significant bits); \<open>rne\<close> rounds to the nearest integer, a tie to the even one;
  \<open>round_real x\<close> is the nearest multiple of \<open>ulp x\<close>. A rounded value of magnitude
  \<open>2 ^ 1024\<close> or more is an infinity. \<open>max_double\<close> is the largest finite double.
\<close>

definition expo :: "real \<Rightarrow> int" where
  "expo x = (if x = 0 then - 1022 else max (- 1022) \<lfloor>log 2 \<bar>x\<bar>\<rfloor>)"

definition ulp :: "real \<Rightarrow> real" where
  "ulp x = 2 powr (real_of_int (expo x) - 52)"

definition rne :: "real \<Rightarrow> int" where
  "rne y =
     (if y - of_int \<lfloor>y\<rfloor> < 1 / 2 then \<lfloor>y\<rfloor>
      else if 1 / 2 < y - of_int \<lfloor>y\<rfloor> then \<lfloor>y\<rfloor> + 1
      else if even \<lfloor>y\<rfloor> then \<lfloor>y\<rfloor> else \<lfloor>y\<rfloor> + 1)"

definition round_real :: "real \<Rightarrow> real" where
  "round_real x = of_int (rne (x / ulp x)) * ulp x"

definition inf_bound :: real where
  "inf_bound = 2 ^ 1024"

definition max_double :: real where
  "max_double = (2 ^ 53 - 1) * 2 ^ 971"

definition fl :: "real \<Rightarrow> double" where
  "fl x =
     (if inf_bound \<le> round_real x then PInf
      else if round_real x \<le> - inf_bound then MInf
      else Fin (round_real x))"

text \<open>
  The operations: nan goes through everything, \<open>inf - inf\<close>, \<open>0 * inf\<close>, \<open>inf / inf\<close>
  and \<open>0 / 0\<close> are nan, a finite non-zero number divided by zero is an infinity, the
  square root of a negative number is nan, and every finite result is rounded.
\<close>

fun fneg :: "double \<Rightarrow> double" where
  "fneg (Fin x) = Fin (- x)"
| "fneg PInf = MInf"
| "fneg MInf = PInf"
| "fneg NaN = NaN"

fun fadd :: "double \<Rightarrow> double \<Rightarrow> double" where
  "fadd NaN b = NaN"
| "fadd a NaN = NaN"
| "fadd PInf MInf = NaN"
| "fadd MInf PInf = NaN"
| "fadd PInf b = PInf"
| "fadd a PInf = PInf"
| "fadd MInf b = MInf"
| "fadd a MInf = MInf"
| "fadd (Fin x) (Fin y) = fl (x + y)"

definition fsub :: "double \<Rightarrow> double \<Rightarrow> double" where
  "fsub a b = fadd a (fneg b)"

fun fmul :: "double \<Rightarrow> double \<Rightarrow> double" where
  "fmul NaN b = NaN"
| "fmul a NaN = NaN"
| "fmul (Fin x) (Fin y) = fl (x * y)"
| "fmul (Fin x) PInf = (if x = 0 then NaN else if 0 < x then PInf else MInf)"
| "fmul (Fin x) MInf = (if x = 0 then NaN else if 0 < x then MInf else PInf)"
| "fmul PInf (Fin y) = (if y = 0 then NaN else if 0 < y then PInf else MInf)"
| "fmul MInf (Fin y) = (if y = 0 then NaN else if 0 < y then MInf else PInf)"
| "fmul PInf PInf = PInf"
| "fmul PInf MInf = MInf"
| "fmul MInf PInf = MInf"
| "fmul MInf MInf = PInf"

fun fdiv :: "double \<Rightarrow> double \<Rightarrow> double" where
  "fdiv NaN b = NaN"
| "fdiv a NaN = NaN"
| "fdiv (Fin x) (Fin y) =
     (if y = 0 then (if x = 0 then NaN else if 0 < x then PInf else MInf) else fl (x / y))"
| "fdiv (Fin x) PInf = Fin 0"
| "fdiv (Fin x) MInf = Fin 0"
| "fdiv PInf (Fin y) = (if 0 \<le> y then PInf else MInf)"
| "fdiv MInf (Fin y) = (if 0 \<le> y then MInf else PInf)"
| "fdiv a b = NaN"

fun fsqrt :: "double \<Rightarrow> double" where
  "fsqrt (Fin x) = (if x < 0 then NaN else fl (sqrt x))"
| "fsqrt PInf = PInf"
| "fsqrt MInf = NaN"
| "fsqrt NaN = NaN"

fun is_negative :: "double \<Rightarrow> bool" where
  "is_negative (Fin x) = (x < 0)"
| "is_negative MInf = True"
| "is_negative PInf = False"
| "is_negative NaN = False"

subsection \<open>The lambdified solutions and the Page component, in binary64\<close>

text \<open>
  The two printed expressions
  \<^verbatim>\<open>sqrt(k_D)*sqrt(8*P_T + k_D)/4 - k_D/4\<close> and
  \<^verbatim>\<open>P_T/2 - sqrt(k_D)*sqrt(8*P_T + k_D)/8 + k_D/8\<close>,
  evaluated as Python evaluates them, from left to right, on the floats
  \<^verbatim>\<open>PT.value\<close> and \<^verbatim>\<open>kD.value\<close>. \<^verbatim>\<open>sqrt\<close> is numpy's and returns a
  numpy double, so what is computed from it never raises. \<^verbatim>\<open>k_D/4\<close>,
  \<^verbatim>\<open>P_T/2\<close> and \<^verbatim>\<open>k_D/8\<close> divide a Python float, which raises when the
  divisor is zero.
\<close>

definition py_truediv :: "double \<Rightarrow> double \<Rightarrow> error + double" where
  "py_truediv a b = (if b = Fin 0 then Inl ZeroDivisionError else Inr (fdiv a b))"

definition radical :: "double \<Rightarrow> double \<Rightarrow> double" where
  "radical PT kD = fmul (fsqrt kD) (fsqrt (fadd (fmul (Fin 8) PT) kD))"

definition lambdas_P1_f64 :: "double \<Rightarrow> double \<Rightarrow> error + double" where
  "lambdas_P1_f64 PT kD =
     (case py_truediv kD (Fin 4) of
        Inl e \<Rightarrow> Inl e
      | Inr q \<Rightarrow> Inr (fsub (fdiv (radical PT kD) (Fin 4)) q))"

definition lambdas_P2_f64 :: "double \<Rightarrow> double \<Rightarrow> error + double" where
  "lambdas_P2_f64 PT kD =
     (case py_truediv PT (Fin 2) of
        Inl e \<Rightarrow> Inl e
      | Inr h \<Rightarrow>
          (case py_truediv kD (Fin 8) of
             Inl e \<Rightarrow> Inl e
           | Inr q \<Rightarrow> Inr (fadd (fsub h (fdiv (radical PT kD) (Fin 8))) q)))"

definition Page_ans_f64 :: "double \<Rightarrow> double \<Rightarrow> error + (string \<times> double) list" where
  "Page_ans_f64 PT kD =
     (case lambdas_P1_f64 PT kD of
        Inl e \<Rightarrow> Inl e
      | Inr m \<Rightarrow>
          (case lambdas_P2_f64 PT kD of
             Inl e \<Rightarrow> Inl e
           | Inr d \<Rightarrow> Inr [(''P_1'', m), (''P_2'', d)]))"

subsection \<open>The fractions of the smFRET post, in binary64\<close>

text \<open>
  \<^verbatim>\<open>th_P = 1 / ( r + 1)\<close> and \<^verbatim>\<open>th_PL = 1 - th_P\<close> on one element of the numpy
  array \<open>r\<close>: numpy's operations, which never raise.
\<close>

definition th_P_f64 :: "double \<Rightarrow> double" where
  "th_P_f64 r = fdiv (Fin 1) (fadd r (Fin 1))"

definition th_PL_f64 :: "double \<Rightarrow> double" where
  "th_PL_f64 r = fsub (Fin 1) (th_P_f64 r)"

definition fractions_f64 :: "double \<Rightarrow> error + (string \<times> double) list" where
  "fractions_f64 r = Inr [(''P'', th_P_f64 r), (''PL'', th_PL_f64 r)]"


subsection \<open>Running the sweeps\<close>

text \<open>
  The cell of the notebook assigns the variables \<^verbatim>\<open>PT_values\<close> and \<^verbatim>\<open>df\<close> of
  the kernel, the block of the post assigns \<^verbatim>\<open>r\<close> and \<^verbatim>\<open>df\<close>. Each is a step on
  the variables it assigns: what they held before is the state it starts from.
\<close>

record notebook_state =
  var_PT_values :: "real list"
  var_df :: "df_row list"

definition run_sweep_cell :: "notebook_state \<Rightarrow> notebook_state" where
  "run_sweep_cell s = s\<lparr>var_PT_values := PT_values, var_df := df\<rparr>"

record post_state =
  var_r :: "real list"
  var_df_post :: "(real \<times> real option \<times> real option) list"

definition run_post_block :: "post_state \<Rightarrow> post_state" where
  "run_post_block s = s\<lparr>var_r := r_values, var_df_post := df_post\<rparr>"

section \<open>Properties of binary64 rounding\<close>

subsection \<open>Rounding to the nearest integer\<close>

lemma rne_of_int: "rne (of_int n) = n"
  by (simp add: rne_def)

lemma rne_ge_floor: "\<lfloor>y\<rfloor> \<le> rne y"
  by (simp add: rne_def)

lemma rne_le_ceiling: "rne y \<le> \<lceil>y\<rceil>"
  unfolding rne_def by (auto simp: ceiling_altdef)

lemma rne_mono:
  assumes "x \<le> y"
  shows "rne x \<le> rne y"
proof (cases "\<lfloor>x\<rfloor> = \<lfloor>y\<rfloor>")
  case True
  then show ?thesis
    using assms unfolding rne_def by auto
next
  case False
  then have "\<lfloor>x\<rfloor> < \<lfloor>y\<rfloor>"
    using assms floor_mono [of x y] by simp
  then have "\<lfloor>x\<rfloor> + 1 \<le> \<lfloor>y\<rfloor>"
    by simp
  moreover have "rne x \<le> \<lfloor>x\<rfloor> + 1"
    by (simp add: rne_def)
  ultimately show ?thesis
    using rne_ge_floor [of y] by linarith
qed

lemma rne_error: "\<bar>of_int (rne y) - y\<bar> \<le> 1 / 2"
  unfolding rne_def by (auto simp: abs_le_iff)

lemma rne_near:
  assumes "\<bar>y - of_int n\<bar> < 1 / 2"
  shows "rne y = n"
proof -
  have "\<lfloor>y\<rfloor> = n \<or> \<lfloor>y\<rfloor> = n - 1"
    using assms by (auto simp add: floor_eq_iff abs_less_iff)
  then show ?thesis
    using assms unfolding rne_def by (auto simp add: abs_less_iff)
qed



subsection \<open>Exponent and spacing\<close>

lemma ulp_pos: "0 < ulp x"
  by (simp add: ulp_def)

lemma expo_eq:
  assumes "2 powr (of_int e) \<le> \<bar>x\<bar>" and "\<bar>x\<bar> < 2 powr (of_int e + 1)" and "- 1022 \<le> e"
  shows "expo x = e"
proof -
  have pos: "0 < \<bar>x\<bar>"
    using assms(1) by (smt (verit) powr_gt_zero)
  then have "\<lfloor>log 2 \<bar>x\<bar>\<rfloor> = e"
    using assms by (simp add: floor_log_eq_powr_iff)
  then show ?thesis
    using pos assms(3) by (auto simp add: expo_def)
qed

lemma expo_ge: "- 1022 \<le> expo x"
  by (simp add: expo_def)

lemma expo_upper:
  assumes "x \<noteq> 0"
  shows "\<bar>x\<bar> < 2 powr (of_int (expo x) + 1)"
proof -
  have "\<bar>x\<bar> < 2 powr (of_int \<lfloor>log 2 \<bar>x\<bar>\<rfloor> + 1)"
    using assms floor_log_eq_powr_iff [of "\<bar>x\<bar>" 2 "\<lfloor>log 2 \<bar>x\<bar>\<rfloor>"] by simp
  also have "\<dots> \<le> 2 powr (of_int (expo x) + 1)"
    using assms by (simp add: expo_def)
  finally show ?thesis .
qed

lemma expo_lower:
  assumes "2 powr (- 1022) \<le> \<bar>x\<bar>"
  shows "2 powr (of_int (expo x)) \<le> \<bar>x\<bar>"
proof -
  have pos: "0 < \<bar>x\<bar>"
    using assms by (smt (verit) powr_gt_zero)
  then have "- 1022 \<le> log 2 \<bar>x\<bar>"
    using assms by (simp add: le_log_iff)
  then have "- 1022 \<le> \<lfloor>log 2 \<bar>x\<bar>\<rfloor>"
    by (simp add: le_floor_iff)
  then have "expo x = \<lfloor>log 2 \<bar>x\<bar>\<rfloor>"
    using pos by (auto simp add: expo_def)
  then show ?thesis
    using pos floor_log_eq_powr_iff [of "\<bar>x\<bar>" 2 "\<lfloor>log 2 \<bar>x\<bar>\<rfloor>"] by simp
qed

lemma expo_lower':
  assumes "- 1022 < expo x"
  shows "2 powr (of_int (expo x)) \<le> \<bar>x\<bar>"
proof -
  from assms have nz: "x \<noteq> 0" and e: "expo x = \<lfloor>log 2 \<bar>x\<bar>\<rfloor>"
    by (auto simp add: expo_def split: if_splits)
  then show ?thesis
    using floor_log_eq_powr_iff [of "\<bar>x\<bar>" 2 "\<lfloor>log 2 \<bar>x\<bar>\<rfloor>"] by simp
qed

lemma expo_mono:
  assumes "0 < x" and "x \<le> y"
  shows "expo x \<le> expo y"
proof -
  have "log 2 \<bar>x\<bar> \<le> log 2 \<bar>y\<bar>"
    using assms by simp
  then have "\<lfloor>log 2 \<bar>x\<bar>\<rfloor> \<le> \<lfloor>log 2 \<bar>y\<bar>\<rfloor>"
    by (rule floor_mono)
  then show ?thesis
    using assms by (simp add: expo_def)
qed

lemma expo_less:
  assumes "\<bar>x\<bar> < 2 powr (of_int e)" and "- 1022 < e"
  shows "expo x < e"
proof (rule ccontr)
  assume "\<not> expo x < e"
  then have ge: "e \<le> expo x"
    by simp
  with assms(2) have "- 1022 < expo x"
    by simp
  then have "2 powr (of_int (expo x)) \<le> \<bar>x\<bar>"
    by (rule expo_lower')
  moreover have "2 powr (of_int e) \<le> (2::real) powr (of_int (expo x))"
  proof -
    from ge have "real_of_int e \<le> real_of_int (expo x)"
      by (simp only: of_int_le_iff)
    then show ?thesis
      by (rule powr_mono) simp
  qed
  ultimately show False
    using assms(1) by linarith
qed

lemma ulp_below_one:
  assumes "\<bar>x\<bar> < 1"
  shows "ulp x \<le> 1 / 2 ^ 53"
proof -
  have "expo x < 0"
    using assms expo_less [of x 0] by simp
  then have "real_of_int (expo x) - 52 \<le> - 53"
    by simp
  then have "ulp x \<le> 2 powr (- 53)"
    unfolding ulp_def by (rule powr_mono) simp
  then show ?thesis
    by (simp add: powr_minus_divide)
qed

subsection \<open>Rounding a real: exact on doubles, monotone, within half a spacing\<close>

lemma round_real_zero: "round_real 0 = 0"
  by (simp add: round_real_def rne_def)

lemma round_real_nonneg:
  assumes "0 \<le> x"
  shows "0 \<le> round_real x"
proof -
  have "0 \<le> x / ulp x"
    using assms ulp_pos [of x] by simp
  then have "0 \<le> \<lfloor>x / ulp x\<rfloor>"
    by simp
  then have "0 \<le> rne (x / ulp x)"
    using rne_ge_floor [of "x / ulp x"] by linarith
  then show ?thesis
    using ulp_pos [of x] by (simp add: round_real_def)
qed

lemma round_real_lower:
  assumes "0 < x" and "- 1022 < expo x"
  shows "2 powr (of_int (expo x)) \<le> round_real x"
proof -
  have "2 powr (of_int (expo x)) \<le> x"
    using expo_lower' [OF assms(2)] assms(1) by simp
  then have "2 powr (of_int (expo x)) / ulp x \<le> x / ulp x"
    using ulp_pos [of x] by (simp add: divide_right_mono)
  moreover have "2 powr (of_int (expo x)) / ulp x = 2 ^ 52"
    by (simp add: ulp_def powr_diff)
  ultimately have "(2::real) ^ 52 \<le> x / ulp x"
    by simp
  then have "(2::int) ^ 52 \<le> \<lfloor>x / ulp x\<rfloor>"
    by (simp add: le_floor_iff)
  then have "(2::int) ^ 52 \<le> rne (x / ulp x)"
    using rne_ge_floor [of "x / ulp x"] by linarith
  then have "(2::real) ^ 52 \<le> of_int (rne (x / ulp x))"
    using of_int_le_iff [of "2 ^ 52" "rne (x / ulp x)", where ?'a = real] by simp
  then have "2 ^ 52 * ulp x \<le> of_int (rne (x / ulp x)) * ulp x"
    using ulp_pos [of x] by (simp add: mult_right_mono)
  moreover have "2 ^ 52 * ulp x = 2 powr (of_int (expo x))"
    by (simp add: ulp_def powr_diff)
  ultimately show ?thesis
    by (simp add: round_real_def)
qed

lemma round_real_upper:
  assumes "0 < x"
  shows "round_real x \<le> 2 powr (of_int (expo x) + 1)"
proof -
  have "x < 2 powr (of_int (expo x) + 1)"
    using expo_upper [of x] assms by simp
  then have "x / ulp x \<le> 2 powr (of_int (expo x) + 1) / ulp x"
    using ulp_pos [of x] by (simp add: divide_right_mono)
  moreover have "2 powr (of_int (expo x) + 1) / ulp x = 2 ^ 53"
    by (simp add: ulp_def flip: powr_diff)
  ultimately have "x / ulp x \<le> 2 ^ 53"
    by simp
  then have "\<lceil>x / ulp x\<rceil> \<le> (2::int) ^ 53"
    by (simp add: ceiling_le_iff)
  then have "rne (x / ulp x) \<le> (2::int) ^ 53"
    using rne_le_ceiling [of "x / ulp x"] by linarith
  then have "of_int (rne (x / ulp x)) \<le> (2::real) ^ 53"
    using of_int_le_iff [of "rne (x / ulp x)" "2 ^ 53", where ?'a = real] by simp
  then have "of_int (rne (x / ulp x)) * ulp x \<le> 2 ^ 53 * ulp x"
    using ulp_pos [of x] by (simp add: mult_right_mono)
  moreover have "2 ^ 53 * ulp x = 2 powr (of_int (expo x) + 1)"
    by (simp add: ulp_def powr_diff powr_add)
  ultimately show ?thesis
    by (simp add: round_real_def)
qed

lemma round_real_mono:
  assumes "0 \<le> x" and "x \<le> y"
  shows "round_real x \<le> round_real y"
proof (cases "x = 0")
  case True
  then show ?thesis
    using assms round_real_nonneg [of y] by (simp add: round_real_zero)
next
  case False
  then have x: "0 < x" and y: "0 < y"
    using assms by simp_all
  have le: "expo x \<le> expo y"
    using x assms(2) by (rule expo_mono)
  show ?thesis
  proof (cases "expo x = expo y")
    case True
    then have u: "ulp x = ulp y"
      by (simp add: ulp_def)
    have "x / ulp y \<le> y / ulp y"
      using assms(2) ulp_pos [of y] by (simp add: divide_right_mono)
    then have "rne (x / ulp y) \<le> rne (y / ulp y)"
      by (rule rne_mono)
    then have "real_of_int (rne (x / ulp y)) \<le> real_of_int (rne (y / ulp y))"
      by simp
    then show ?thesis
      using ulp_pos [of y] by (simp add: round_real_def u mult_right_mono)
  next
    case False
    with le have lt: "expo x + 1 \<le> expo y" and norm: "- 1022 < expo y"
      using expo_ge [of x] by simp_all
    have "round_real x \<le> 2 powr (of_int (expo x) + 1)"
      using x by (rule round_real_upper)
    also have "\<dots> \<le> 2 powr (of_int (expo y))"
    proof -
      from lt have "real_of_int (expo x + 1) \<le> real_of_int (expo y)"
        by (simp only: of_int_le_iff)
      then have "real_of_int (expo x) + 1 \<le> real_of_int (expo y)"
        by simp
      then show ?thesis
        by (rule powr_mono) simp
    qed
    also have "\<dots> \<le> round_real y"
      using y norm by (rule round_real_lower)
    finally show ?thesis .
  qed
qed

lemma round_real_error: "\<bar>round_real x - x\<bar> \<le> ulp x / 2"
proof -
  have "\<bar>of_int (rne (x / ulp x)) - x / ulp x\<bar> \<le> 1 / 2"
    by (rule rne_error)
  then have "\<bar>of_int (rne (x / ulp x)) - x / ulp x\<bar> * ulp x \<le> 1 / 2 * ulp x"
    using ulp_pos [of x] by (simp add: mult_right_mono)
  moreover have "\<bar>of_int (rne (x / ulp x)) - x / ulp x\<bar> * ulp x = \<bar>round_real x - x\<bar>"
  proof -
    have "\<bar>of_int (rne (x / ulp x)) - x / ulp x\<bar> * ulp x
        = \<bar>(of_int (rne (x / ulp x)) - x / ulp x) * ulp x\<bar>"
      using ulp_pos [of x] by (simp add: abs_mult)
    also have "(of_int (rne (x / ulp x)) - x / ulp x) * ulp x = round_real x - x"
      using ulp_pos [of x] by (simp add: round_real_def left_diff_distrib)
    finally show ?thesis .
  qed
  ultimately show ?thesis
    by simp
qed

lemma round_real_exact:
  assumes "\<bar>m\<bar> < 2 ^ 53" and "- 1074 \<le> k"
  shows "round_real (of_int m * 2 powr (of_int k)) = of_int m * 2 powr (of_int k)"
proof (cases "m = 0")
  case True
  then show ?thesis
    by (simp add: round_real_zero)
next
  case False
  let ?x = "of_int m * 2 powr (of_int k) :: real"
  have nz: "?x \<noteq> 0"
    using False by simp
  have "\<bar>?x\<bar> = of_int \<bar>m\<bar> * 2 powr (of_int k)"
    by (simp add: abs_mult)
  also have "\<dots> < 2 ^ 53 * 2 powr (of_int k)"
    using assms(1) of_int_less_iff [of "\<bar>m\<bar>" "2 ^ 53", where ?'a = real] by simp
  also have "\<dots> = 2 powr (of_int (k + 53))"
    by (simp add: powr_add)
  finally have up: "\<bar>?x\<bar> < 2 powr (of_int (k + 53))" .
  have ek: "expo ?x \<le> k + 52"
  proof (rule ccontr)
    assume "\<not> expo ?x \<le> k + 52"
    then have big: "k + 53 \<le> expo ?x"
      by simp
    with assms(2) have "- 1022 < expo ?x"
      by simp
    then have "2 powr (of_int (expo ?x)) \<le> \<bar>?x\<bar>"
      by (rule expo_lower')
    moreover have "2 powr (of_int (k + 53)) \<le> (2::real) powr (of_int (expo ?x))"
    proof -
      from big have "real_of_int (k + 53) \<le> real_of_int (expo ?x)"
        by (simp only: of_int_le_iff)
      then show ?thesis
        by (rule powr_mono) simp
    qed
    ultimately show False
      using up by linarith
  qed
  define j where "j = nat (k + 52 - expo ?x)"
  have j: "of_int k - (of_int (expo ?x) - 52) = real j"
    using ek by (simp add: j_def)
  have "?x / ulp ?x = of_int m * 2 powr (of_int k - (of_int (expo ?x) - 52))"
    by (simp add: ulp_def powr_diff)
  also have "\<dots> = of_int m * 2 ^ j"
    unfolding j by (simp add: powr_realpow)
  also have "\<dots> = of_int (m * 2 ^ j)"
    by simp
  finally have "?x / ulp ?x = of_int (m * 2 ^ j)" .
  then have "rne (?x / ulp ?x) = m * 2 ^ j"
    by (simp only: rne_of_int)
  then have "round_real ?x = of_int (m * 2 ^ j) * ulp ?x"
    by (simp add: round_real_def)
  also have "\<dots> = ?x / ulp ?x * ulp ?x"
    using \<open>?x / ulp ?x = of_int (m * 2 ^ j)\<close> by simp
  also have "\<dots> = ?x"
    using ulp_pos [of ?x] by simp
  finally show ?thesis .
qed

lemma round_real_int:
  assumes "\<bar>m\<bar> < 2 ^ 53"
  shows "round_real (of_int m) = of_int m"
  using round_real_exact [OF assms, of 0] by simp

lemma round_real_one: "round_real 1 = 1"
  using round_real_int [of 1] by simp

lemma round_real_binade:
  assumes "2 powr (of_int e) \<le> \<bar>x\<bar>" and "\<bar>x\<bar> < 2 powr (of_int e + 1)" and "- 1022 \<le> e"
  shows "round_real x = of_int (rne (x / 2 powr (of_int e - 52))) * 2 powr (of_int e - 52)"
  using expo_eq [OF assms] by (simp add: round_real_def ulp_def)

lemma round_real_near:
  assumes "2 powr (of_int e) \<le> \<bar>x\<bar>" and "\<bar>x\<bar> < 2 powr (of_int e + 1)" and "- 1022 \<le> e"
    and "\<bar>x / 2 powr (of_int e - 52) - of_int n\<bar> < 1 / 2"
  shows "round_real x = of_int n * 2 powr (of_int e - 52)"
  using round_real_binade [OF assms(1-3)] rne_near [OF assms(4)] by simp


subsection \<open>Finite results and overflow\<close>

lemma fl_finite:
  assumes "\<bar>round_real x\<bar> < inf_bound"
  shows "fl x = Fin (round_real x)"
  using assms by (simp add: fl_def abs_less_iff)

lemma inf_bound_gt: "2 ^ 53 < inf_bound"
  unfolding inf_bound_def by (rule power_strict_increasing) simp_all

lemma fl_of_round:
  assumes "round_real x = y" and "\<bar>y\<bar> < inf_bound"
  shows "fl x = Fin y"
  using assms fl_finite [of x] by simp

lemma fl_int:
  assumes "\<bar>m\<bar> < 2 ^ 53"
  shows "fl (of_int m) = Fin (of_int m)"
proof -
  have "real_of_int \<bar>m\<bar> < 2 ^ 53"
    using assms of_int_less_iff [of "\<bar>m\<bar>" "2 ^ 53", where ?'a = real] by simp
  then have "\<bar>real_of_int m\<bar> < inf_bound"
    using inf_bound_gt by simp
  then show ?thesis
    using round_real_int [OF assms] fl_finite [of "of_int m"] by simp
qed

lemma fl_dyadic:
  assumes "\<bar>m\<bar> < 2 ^ 53" and "j \<le> 1074"
  shows "fl (of_int m / 2 ^ j) = Fin (of_int m / 2 ^ j)"
proof -
  have eq: "real_of_int m / 2 ^ j = of_int m * 2 powr (of_int (- int j))"
    by (simp add: powr_minus_divide powr_realpow)
  have "round_real (of_int m * 2 powr (of_int (- int j))) = of_int m * 2 powr (of_int (- int j))"
    using assms by (intro round_real_exact) simp_all
  then have r: "round_real (of_int m / 2 ^ j) = of_int m / 2 ^ j"
    by (simp only: eq)
  have "real_of_int \<bar>m\<bar> < 2 ^ 53"
    using assms of_int_less_iff [of "\<bar>m\<bar>" "2 ^ 53", where ?'a = real] by simp
  then have "\<bar>real_of_int m\<bar> < inf_bound"
    using inf_bound_gt by simp
  moreover have "\<bar>real_of_int m / 2 ^ j\<bar> \<le> \<bar>real_of_int m\<bar>"
  proof -
    have "\<bar>real_of_int m\<bar> * 1 \<le> \<bar>real_of_int m\<bar> * 2 ^ j"
      by (intro mult_left_mono) simp_all
    then show ?thesis
      by (simp add: abs_divide pos_divide_le_eq)
  qed
  ultimately have "\<bar>real_of_int m / 2 ^ j\<bar> < inf_bound"
    by linarith
  then show ?thesis
    using fl_finite [of "of_int m / 2 ^ j"] by (simp add: r)
qed




lemma max_double_lt: "max_double < inf_bound"
proof -
  have "max_double < 2 ^ 53 * 2 ^ 971"
    unfolding max_double_def by (intro mult_strict_right_mono) simp_all
  also have "\<dots> = inf_bound"
    by (simp add: inf_bound_def flip: power_add)
  finally show ?thesis .
qed

lemma round_real_max_succ: "round_real (max_double + 1) = max_double"
proof -
  have eq: "max_double + 1 = 2 ^ 1024 - 2 ^ 971 + 1"
    by (simp add: max_double_def)
  have lo: "2 powr (of_int 1023) \<le> \<bar>max_double + 1\<bar>"
    unfolding eq by simp
  have hi: "\<bar>max_double + 1\<bar> < 2 powr (of_int 1023 + 1)"
    unfolding eq by simp
  have "(max_double + 1) / 2 powr (of_int 1023 - 52) - of_int (2 ^ 53 - 1) = 1 / 2 ^ 971"
    by (simp add: max_double_def field_simps)
  then have near: "\<bar>(max_double + 1) / 2 powr (of_int 1023 - 52) - of_int (2 ^ 53 - 1)\<bar> < 1 / 2"
    by (simp only: ) simp
  have "round_real (max_double + 1) = of_int (2 ^ 53 - 1) * 2 powr (of_int 1023 - 52)"
    using lo hi _ near by (rule round_real_near) simp
  then show ?thesis
    by (simp add: max_double_def)
qed

section \<open>The code on particular doubles\<close>

lemma fl_values:
  "fl 0 = Fin 0" "fl 1 = Fin 1" "fl 2 = Fin 2" "fl 3 = Fin 3" "fl 4 = Fin 4" "fl 5 = Fin 5"
  "fl 6 = Fin 6" "fl 7 = Fin 7" "fl 8 = Fin 8" "fl 9 = Fin 9" "fl 12 = Fin 12"
  "fl 24 = Fin 24" "fl 25 = Fin 25" "fl 32 = Fin 32" "fl 36 = Fin 36" "fl 48 = Fin 48"
  "fl 49 = Fin 49" "fl 80 = Fin 80" "fl 81 = Fin 81"
  "fl (1 / 2) = Fin (1 / 2)" "fl (1 / 4) = Fin (1 / 4)" "fl (1 / 8) = Fin (1 / 8)"
  "fl (3 / 2) = Fin (3 / 2)" "fl (5 / 4) = Fin (5 / 4)" "fl (7 / 4) = Fin (7 / 4)"
  "fl (9 / 4) = Fin (9 / 4)" "fl (5 / 8) = Fin (5 / 8)" "fl (7 / 8) = Fin (7 / 8)"
  "fl (9 / 8) = Fin (9 / 8)" "fl (17 / 8) = Fin (17 / 8)" "fl (31 / 8) = Fin (31 / 8)"
  "fl (- (1 / 4)) = Fin (- (1 / 4))" "fl (- (1 / 8)) = Fin (- (1 / 8))"
  using fl_int [of 0] fl_int [of 1] fl_int [of 2] fl_int [of 3] fl_int [of 4] fl_int [of 5]
    fl_int [of 6] fl_int [of 7] fl_int [of 8] fl_int [of 9] fl_int [of 12]
    fl_int [of 24] fl_int [of 25] fl_int [of 32] fl_int [of 36] fl_int [of 48]
    fl_int [of 49] fl_int [of 80] fl_int [of 81]
    fl_dyadic [of 1 1] fl_dyadic [of 1 2] fl_dyadic [of 1 3]
    fl_dyadic [of 3 1] fl_dyadic [of 5 2] fl_dyadic [of 7 2]
    fl_dyadic [of 9 2] fl_dyadic [of 5 3] fl_dyadic [of 7 3]
    fl_dyadic [of 9 3] fl_dyadic [of 17 3] fl_dyadic [of 31 3]
    fl_dyadic [of "- 1" 2] fl_dyadic [of "- 1" 3]
  by simp_all

lemmas Page_ans_f64_defs =
  Page_ans_f64_def lambdas_P1_f64_def lambdas_P2_f64_def py_truediv_def fsub_def

subsection \<open>Inputs at which every operation is exact\<close>

lemma Page_ans_f64_scenario:
  "Page_ans_f64 (Fin 10) (Fin 1) = Inr [(''P_1'', Fin 2), (''P_2'', Fin 4)]"
  by (simp add: Page_ans_f64_defs radical_def fl_values)




lemma fdiv_self:
  assumes "x \<noteq> 0"
  shows "fdiv (Fin x) (Fin x) = Fin 1"
  using assms by (simp add: fl_values)

lemma fractions_f64_one:
  "fractions_f64 (Fin 1) = Inr [(''P'', Fin (1 / 2)), (''PL'', Fin (1 / 2))]"
  by (simp add: fractions_f64_def th_P_f64_def th_PL_f64_def fsub_def fl_values)

subsection \<open>Total concentration 1, dissociation constant 1e17: a negative dimer\<close>






subsection \<open>Total concentration 1, dissociation constant \<open>2 ^ 54\<close>: no dimer at all\<close>



subsection \<open>Both equal to the double after 1\<close>







subsection \<open>Overflow of \<open>8 * PT\<close>\<close>



subsection \<open>Ratios below the spacing of the doubles at 1\<close>

lemma th_P_f64_tiny:
  "th_P_f64 (Fin (1 / 2 ^ 60)) = Fin 1" "th_PL_f64 (Fin (1 / 2 ^ 60)) = Fin 0"
  "th_P_f64 (Fin (1 / 2 ^ 59)) = Fin 1"
proof -
  have "round_real (1 / 2 ^ 60 + 1) = 1"
    using round_real_near [of 0 "1 / 2 ^ 60 + 1" "2 ^ 52"] by (simp add: powr_minus_divide)
  then have a: "fl (1 / 2 ^ 60 + 1) = Fin 1"
    by (rule fl_of_round) (simp add: inf_bound_def)
  have "round_real (1 / 2 ^ 59 + 1) = 1"
    using round_real_near [of 0 "1 / 2 ^ 59 + 1" "2 ^ 52"] by (simp add: powr_minus_divide)
  then have b: "fl (1 / 2 ^ 59 + 1) = Fin 1"
    by (rule fl_of_round) (simp add: inf_bound_def)
  show p: "th_P_f64 (Fin (1 / 2 ^ 60)) = Fin 1"
    using a by (simp add: th_P_f64_def fl_values)
  show "th_PL_f64 (Fin (1 / 2 ^ 60)) = Fin 0"
    unfolding th_PL_f64_def p by (simp add: fsub_def fl_values)
  show "th_P_f64 (Fin (1 / 2 ^ 59)) = Fin 1"
    using b by (simp add: th_P_f64_def fl_values)
qed

subsection \<open>The fractions on every positive finite double\<close>

lemma th_P_f64_range:
  assumes "0 < x" and "x \<le> max_double"
  shows "th_P_f64 (Fin x) = Fin (round_real (1 / round_real (x + 1)))"
    and "1 \<le> round_real (x + 1)"
    and "0 < round_real (1 / round_real (x + 1))"
    and "round_real (1 / round_real (x + 1)) \<le> 1"
proof -
  let ?s = "round_real (x + 1)"
  let ?f = "round_real (1 / ?s)"
  have "round_real 1 \<le> ?s"
    using assms by (intro round_real_mono) simp_all
  then show s1: "1 \<le> ?s"
    by (simp add: round_real_one)
  have "?s \<le> round_real (max_double + 1)"
    using assms by (intro round_real_mono) simp_all
  then have smax: "?s \<le> max_double"
    by (simp add: round_real_max_succ)
  then have sfin: "\<bar>?s\<bar> < inf_bound"
    using s1 max_double_lt by simp
  then have sum: "fl (x + 1) = Fin ?s"
    by (rule fl_finite)
  have "?s < 2 ^ 1024"
    using smax max_double_lt by (simp add: inf_bound_def)
  then have "1 / 2 ^ 1024 \<le> 1 / ?s"
    using s1 by (simp add: frac_le)
  then have "round_real (1 / 2 ^ 1024) \<le> ?f"
    by (intro round_real_mono) simp_all
  moreover have "round_real (1 / 2 ^ 1024) = 1 / 2 ^ 1024"
    using round_real_exact [of 1 "- 1024"] by (simp add: powr_minus_divide)
  ultimately have "1 / 2 ^ 1024 \<le> ?f"
    by simp
  then show fpos: "0 < ?f"
    by (smt (verit) divide_pos_pos zero_less_power zero_less_one)
  have "1 / ?s \<le> 1"
    using s1 by simp
  then have "?f \<le> round_real 1"
    using s1 by (intro round_real_mono) simp_all
  then show f1: "?f \<le> 1"
    by (simp add: round_real_one)
  have "\<bar>?f\<bar> < inf_bound"
    using fpos f1 inf_bound_gt by simp
  then have "fl (1 / ?s) = Fin ?f"
    by (rule fl_finite)
  then show "th_P_f64 (Fin x) = Fin ?f"
    using s1 by (simp add: th_P_f64_def sum)
qed

lemma th_PL_f64_range:
  assumes "0 < f" and "f \<le> 1"
  shows "fsub (Fin 1) (Fin f) = Fin (round_real (1 - f))"
    and "0 \<le> round_real (1 - f)" and "round_real (1 - f) \<le> 1"
    and "\<bar>f + round_real (1 - f) - 1\<bar> \<le> 1 / 2 ^ 54"
proof -
  let ?b = "round_real (1 - f)"
  show b0: "0 \<le> ?b"
    using assms by (intro round_real_nonneg) simp
  have "?b \<le> round_real 1"
    using assms by (intro round_real_mono) simp_all
  then show b1: "?b \<le> 1"
    by (simp add: round_real_one)
  have "\<bar>?b\<bar> < inf_bound"
    using b0 b1 inf_bound_gt by simp
  then have "fl (1 - f) = Fin ?b"
    by (rule fl_finite)
  then show "fsub (Fin 1) (Fin f) = Fin ?b"
    by (simp add: fsub_def)
  have "\<bar>?b - (1 - f)\<bar> \<le> ulp (1 - f) / 2"
    by (rule round_real_error)
  moreover have "ulp (1 - f) \<le> 1 / 2 ^ 53"
    using assms by (intro ulp_below_one) simp
  ultimately show "\<bar>f + ?b - 1\<bar> \<le> 1 / 2 ^ 54"
    by (simp add: algebra_simps)
qed

subsection \<open>Inputs that are not positive\<close>

lemma fl_small:
  assumes "0 \<le> x" and "x \<le> 2 ^ 53"
  shows "fl x = Fin (round_real x)"
proof (rule fl_finite)
  have "round_real x \<le> round_real (of_int (2 ^ 53) * 2 powr (of_int 0))"
    using assms by (intro round_real_mono) simp_all
  also have "\<dots> = of_int (2 ^ 53) * 2 powr (of_int 0)"
    using round_real_exact [of "2 ^ 52" 1] by simp
  finally have "round_real x \<le> 2 ^ 53"
    by simp
  moreover have "0 \<le> round_real x"
    using assms(1) by (rule round_real_nonneg)
  ultimately show "\<bar>round_real x\<bar> < inf_bound"
    using inf_bound_gt by simp
qed

lemma Page_ans_f64_kD_zero:
  "Page_ans_f64 (Fin 10) (Fin 0) = Inr [(''P_1'', Fin 0), (''P_2'', Fin 5)]"
proof -
  have "sqrt 80 \<le> (2::real) ^ 53"
    by (rule real_le_lsqrt) simp_all
  then have "fl (sqrt 80) = Fin (round_real (sqrt 80))"
    by (intro fl_small) simp_all
  then have "radical (Fin 10) (Fin 0) = Fin 0"
    by (simp add: radical_def fl_values)
  then show ?thesis
    by (simp add: Page_ans_f64_defs fl_values)
qed

lemma fsqrt_negative:
  assumes "is_negative kD"
  shows "fsqrt kD = NaN"
  using assms by (cases kD) simp_all

lemma fadd_NaN_right: "fadd a NaN = NaN"
  by (cases a) simp_all

lemma Page_ans_f64_negative:
  assumes "is_negative kD"
  shows "Page_ans_f64 PT kD = Inr [(''P_1'', NaN), (''P_2'', NaN)]"
  using fsqrt_negative [OF assms]
  by (simp add: Page_ans_f64_defs radical_def fadd_NaN_right)

lemma fractions_f64_zero:
  "fractions_f64 (Fin 0) = Inr [(''P'', Fin 1), (''PL'', Fin 0)]"
  by (simp add: fractions_f64_def th_P_f64_def th_PL_f64_def fsub_def fl_values)

lemma one_le_max_double: "1 \<le> max_double" "3 \<le> max_double"
proof -
  have "(3::real) * 1 \<le> (2 ^ 53 - 1) * 2 ^ 971"
    by (intro mult_mono) simp_all
  then show "3 \<le> max_double"
    by (simp add: max_double_def)
  then show "1 \<le> max_double"
    by simp
qed

section \<open>Properties of the programs\<close>

subsection \<open>Algebra of the closed form\<close>







subsection \<open>The closed form of the solution\<close>




subsection \<open>The equilibrium relation and the choice of the root\<close>








subsection \<open>The scenario of the Page component\<close>

text \<open>
  C3, as the specification has it: at \<open>PT = 10\<close>, \<open>kD = 1\<close> (the initial values of the
  Page component) the monomer is about 2.70 and the dimer about 3.65. It fails: the
  component returns exactly 2 and 4, which are 0.7 and 0.35 away, so neither value is
  within a tenth of the stated one.
\<close>

theorem Page_ans_scenario_counterexample:
  "\<not> approx (1 / 10) (species ''P_1'' (Page_ans 10 1)) (270 / 100)
   \<and> \<not> approx (1 / 10) (species ''P_2'' (Page_ans 10 1)) (365 / 100)"
proof -
  have "Page_ans 10 1 = Inr [(''P_1'', Some 2), (''P_2'', Some 4)]"
    by (simp add: Page_ans_def lambdas_P1_def lambdas_P2_def np_sqrt_def)
  then show ?thesis
    by (simp add: approx_def species_def)
qed

text \<open>
  C3, amended: at \<open>PT = 10\<close>, \<open>kD = 1\<close> the Page component returns monomer 2 and
  dimer 4, with \<open>2 + 2 * 4 = 10\<close>; one species out of three is a monomer, as the notebook
  says.
\<close>

theorem Page_ans_scenario:
  "Page_ans 10 1 = Inr [(''P_1'', Some 2), (''P_2'', Some 4)]
   \<and> (2::real) + 2 * 4 = 10
   \<and> np_divide (lambdas_P1 10 1) (ld_total 10 1) = Some (1 / 3)"
  by (simp add: Page_ans_def lambdas_P1_def lambdas_P2_def ld_total_def np_sqrt_def
      np_divide_def)

text \<open>
  In doubles the Page component returns the same two numbers there: every operation is
  exact (lemma \<open>Page_ans_f64_scenario\<close>).
\<close>

subsection \<open>Total concentration equal to the dissociation constant\<close>




subsection \<open>The fractions of free and bound protein\<close>

lemma th_P_pos:
  assumes "0 \<le> r"
  shows "th_P r = Some (1 / (r + 1))"
  using assms by (simp add: th_P_def np_divide_def)

lemma th_PL_pos:
  assumes "0 \<le> r"
  shows "th_PL r = Some (1 - 1 / (r + 1))"
  using assms by (simp add: th_PL_def th_P_pos)

text \<open>
  C5, as the specification has it: for every ligand concentration and dissociation
  constant above 0 the two fractions lie strictly between 0 and 1. It fails in doubles:
  at the ratio \<open>2\<^sup>-\<^sup>6\<^sup>0\<close> (ligand concentration \<open>2\<^sup>-\<^sup>6\<^sup>0\<close>, dissociation constant 1) the sum
  \<open>r + 1\<close> rounds to 1, the free fraction is exactly 1 and the bound fraction exactly 0.
\<close>

theorem fractions_f64_counterexample:
  "(0::real) < 1 / 2 ^ 60
   \<and> fractions_f64 (Fin (1 / 2 ^ 60)) = Inr [(''P'', Fin 1), (''PL'', Fin 0)]
   \<and> \<not> (1::real) < 1 \<and> \<not> (0::real) < 0"
  using th_P_f64_tiny(1,2) by (simp add: fractions_f64_def)

text \<open>
  C5, amended: for every finite double ratio \<open>r > 0\<close> the code returns, without error,
  the free fraction \<open>1 / (r + 1)\<close> with the sum and the quotient each rounded to a
  double, and the bound fraction \<open>1 -\<close> free fraction, rounded. Both are finite, the
  free fraction lies in \<open>(0, 1]\<close> and the bound fraction in \<open>[0, 1]\<close>, and their sum differs
  from 1 by at most \<open>2\<^sup>-\<^sup>5\<^sup>4\<close>, well within 1e-12.
\<close>

theorem fractions_f64_range:
  assumes "0 < x" and "x \<le> max_double"
  shows "\<exists>f b. fractions_f64 (Fin x) = Inr [(''P'', Fin f), (''PL'', Fin b)]
           \<and> f = round_real (1 / round_real (x + 1)) \<and> b = round_real (1 - f)
           \<and> 0 < f \<and> f \<le> 1 \<and> 0 \<le> b \<and> b \<le> 1
           \<and> \<bar>f + b - 1\<bar> \<le> 1 / 2 ^ 54"
proof -
  let ?f = "round_real (1 / round_real (x + 1))"
  have p: "th_P_f64 (Fin x) = Fin ?f" and f: "0 < ?f" "?f \<le> 1"
    using th_P_f64_range [OF assms] by simp_all
  have "th_PL_f64 (Fin x) = Fin (round_real (1 - ?f))"
    unfolding th_PL_f64_def p using f by (rule th_PL_f64_range)
  then show ?thesis
    using p f th_PL_f64_range(2-4) [OF f] by (simp add: fractions_f64_def)
qed

theorem fractions_f64_range_witness:
  "(0::real) < 1 \<and> 1 \<le> max_double
   \<and> fractions_f64 (Fin 1) = Inr [(''P'', Fin (1 / 2)), (''PL'', Fin (1 / 2))]
   \<and> (\<exists>f b. fractions_f64 (Fin 1) = Inr [(''P'', Fin f), (''PL'', Fin b)]
         \<and> 0 < f \<and> f \<le> 1 \<and> 0 \<le> b \<and> b \<le> 1 \<and> \<bar>f + b - 1\<bar> \<le> 1 / 2 ^ 54)"
proof -
  have "\<exists>f b. fractions_f64 (Fin 1) = Inr [(''P'', Fin f), (''PL'', Fin b)]
      \<and> 0 < f \<and> f \<le> 1 \<and> 0 \<le> b \<and> b \<le> 1 \<and> \<bar>f + b - 1\<bar> \<le> 1 / 2 ^ 54"
    using fractions_f64_range [OF zero_less_one one_le_max_double(1)] by blast
  then show ?thesis
    using one_le_max_double(1) fractions_f64_one by simp
qed

text \<open>
  C6, as the specification has it: for a fixed dissociation constant the free fraction
  is strictly decreasing in the ligand concentration. It fails in doubles: with
  dissociation constant 1, the ligand concentrations \<open>2\<^sup>-\<^sup>6\<^sup>0 < 2\<^sup>-\<^sup>5\<^sup>9\<close> both give the
  free fraction 1.
\<close>

theorem th_P_f64_counterexample:
  "(0::real) < 1 / 2 ^ 60 \<and> (1::real) / 2 ^ 60 < 1 / 2 ^ 59
   \<and> th_P_f64 (Fin (1 / 2 ^ 60)) = Fin 1
   \<and> th_P_f64 (Fin (1 / 2 ^ 59)) = Fin 1
   \<and> \<not> (1::real) < 1"
  using th_P_f64_tiny(1,3) by simp

text \<open>
  C6, amended: for finite double ratios \<open>0 < r1 < r2\<close> both free fractions are finite
  and the one at \<open>r2\<close> is not larger than the one at \<open>r1\<close>: the free fraction never
  increases with the ligand concentration.
\<close>

theorem th_P_f64_decreasing:
  assumes "0 < x1" and "x1 < x2" and "x2 \<le> max_double"
  shows "\<exists>f1 f2. th_P_f64 (Fin x1) = Fin f1 \<and> th_P_f64 (Fin x2) = Fin f2 \<and> f2 \<le> f1"
proof -
  have x1: "x1 \<le> max_double" and x2: "0 < x2"
    using assms by simp_all
  have s1: "1 \<le> round_real (x1 + 1)"
    using assms(1) x1 by (rule th_P_f64_range)
  have "round_real (x1 + 1) \<le> round_real (x2 + 1)"
    using assms by (intro round_real_mono) simp_all
  then have "1 / round_real (x2 + 1) \<le> 1 / round_real (x1 + 1)"
    using s1 by (simp add: frac_le)
  moreover have "0 \<le> 1 / round_real (x2 + 1)"
    using th_P_f64_range(2) [OF x2 assms(3)] by simp
  ultimately have "round_real (1 / round_real (x2 + 1)) \<le> round_real (1 / round_real (x1 + 1))"
    by (rule round_real_mono [rotated])
  then show ?thesis
    using th_P_f64_range(1) [OF assms(1) x1] th_P_f64_range(1) [OF x2 assms(3)] by simp
qed

theorem th_P_f64_decreasing_witness:
  "(0::real) < 1 \<and> (1::real) < 3 \<and> 3 \<le> max_double
   \<and> (\<exists>f1 f2. th_P_f64 (Fin 1) = Fin f1 \<and> th_P_f64 (Fin 3) = Fin f2 \<and> f2 \<le> f1)"
  using th_P_f64_decreasing [of 1 3] one_le_max_double(2) by simp

text \<open>
  C7. For every \<open>Kd > 0\<close>, at a ligand concentration equal to \<open>Kd\<close> the free and the bound
  fraction are both exactly \<open>1 / 2\<close>.
\<close>

theorem fractions_at_Kd:
  assumes "0 < Kd"
  shows "fractions (Kd / Kd) = Inr [(''P'', Some (1 / 2)), (''PL'', Some (1 / 2))]"
  using assms by (simp add: fractions_def th_P_pos th_PL_pos)

theorem fractions_at_Kd_witness:
  "(0::real) < 5 \<and> fractions (5 / 5) = Inr [(''P'', Some (1 / 2)), (''PL'', Some (1 / 2))]"
  using fractions_at_Kd [of 5] by simp

text \<open>
  In doubles the two fractions at the ratio 1 are the same numbers (lemma
  \<open>fractions_f64_one\<close>), and a finite non-zero double divided by itself is 1 (lemma
  \<open>fdiv_self\<close>).
\<close>

subsection \<open>Samples of linspace and logspace\<close>

lemma length_linspace: "length (linspace start stop num) = num"
  by (simp add: linspace_def)

lemma length_logspace: "length (logspace start stop num) = num"
  by (simp add: logspace_def length_linspace)

lemma linspace_nth:
  assumes "i < num"
  shows "linspace start stop num ! i = start + real i * ((stop - start) / real (num - 1))"
proof (cases "1 < num \<and> i = num - 1")
  case True
  then have "real i * ((stop - start) / real (num - 1)) = stop - start"
    by simp
  then show ?thesis
    using assms True by (simp add: linspace_def)
next
  case False
  then show ?thesis
    using assms by (auto simp add: linspace_def)
qed

lemma logspace_nth:
  assumes "i < num"
  shows "logspace start stop num ! i = 10 powr (start + real i * ((stop - start) / real (num - 1)))"
  using assms by (simp add: logspace_def length_linspace linspace_nth)

lemma linspace_strict:
  assumes "start < stop"
  shows "sorted_wrt (<) (linspace start stop num)"
proof -
  have "linspace start stop num ! i < linspace start stop num ! j"
    if "i < j" and "j < num" for i j
  proof -
    from that have "1 < num"
      by simp
    then have step: "0 < (stop - start) / real (num - 1)"
      using assms by simp
    have "real i < real j"
      using that by simp
    from this step have "real i * ((stop - start) / real (num - 1)) < real j * ((stop - start) / real (num - 1))"
      by (rule mult_strict_right_mono)
    then show ?thesis
      using that by (simp add: linspace_nth)
  qed
  then show ?thesis
    by (simp add: sorted_wrt_iff_nth_less length_linspace)
qed

lemma logspace_strict:
  assumes "start < stop"
  shows "sorted_wrt (<) (logspace start stop num)"
proof -
  have "sorted_wrt (\<lambda>x y. (10::real) powr x < 10 powr y) (linspace start stop num)"
    using linspace_strict [OF assms] by simp
  then show ?thesis
    by (simp add: logspace_def sorted_wrt_map)
qed

lemma hd_logspace:
  assumes "0 < num"
  shows "hd (logspace start stop num) = 10 powr start"
proof -
  have "hd (logspace start stop num) = logspace start stop num ! 0"
    using assms by (simp add: hd_conv_nth length_logspace flip: length_greater_0_conv)
  then show ?thesis
    using assms by (simp add: logspace_nth)
qed

lemma last_logspace:
  assumes "1 < num"
  shows "last (logspace start stop num) = 10 powr stop"
proof -
  have "last (logspace start stop num) = logspace start stop num ! (num - 1)"
    using assms by (simp add: last_conv_nth length_logspace flip: length_greater_0_conv)
  moreover have "real (num - 1) * ((stop - start) / real (num - 1)) = stop - start"
    using assms by simp
  ultimately show ?thesis
    using assms by (simp add: logspace_nth)
qed

subsection \<open>The first and the last row of the sweep\<close>

lemma df_sweep: "df = sweep 1 (- 1) 3 100"
  by (simp add: df_def sweep_def PT_values_def)

lemma hd_df: "hd df = df_row_at 1 (1 / 10)"
proof -
  have "PT_values \<noteq> []"
    by (simp add: PT_values_def length_logspace flip: length_greater_0_conv)
  then have "hd df = df_row_at 1 (hd PT_values)"
    by (simp add: df_def hd_map)
  also have "hd PT_values = 10 powr (- 1)"
    by (simp add: PT_values_def hd_logspace)
  also have "(10::real) powr (- 1) = 1 / 10"
    by simp
  finally show ?thesis .
qed

lemma last_df: "last df = df_row_at 1 1000"
proof -
  have "PT_values \<noteq> []"
    by (simp add: PT_values_def length_logspace flip: length_greater_0_conv)
  then have "last df = df_row_at 1 (last PT_values)"
    by (simp add: df_def last_map)
  also have "last PT_values = 10 powr 3"
    by (simp add: PT_values_def last_logspace)
  also have "(10::real) powr 3 = 1000"
    by simp
  finally show ?thesis .
qed

lemma sqrt_9_5_bounds: "13416 / 10000 < sqrt (9 / 5)" "sqrt (9 / 5) < 13417 / 10000"
proof -
  show "13416 / 10000 < sqrt (9 / 5)"
    by (rule real_less_rsqrt) (simp add: power2_eq_square)
  show "sqrt (9 / 5) < 13417 / 10000"
    by (rule real_less_lsqrt) (simp_all add: power2_eq_square)
qed

lemma sqrt_8001_bounds: "89448 / 1000 < sqrt 8001" "sqrt 8001 < 89449 / 1000"
proof -
  show "89448 / 1000 < sqrt 8001"
    by (rule real_less_rsqrt) (simp add: power2_eq_square)
  show "sqrt 8001 < 89449 / 1000"
    by (rule real_less_lsqrt) (simp_all add: power2_eq_square)
qed

lemma first_monomer_fraction:
  "approx (5 / 10000) (col_P_1 (df_row_at 1 (1 / 10))) (921 / 1000)"
proof -
  define s where "s = sqrt (9 / 5)"
  have lo: "13416 / 10000 < s" and hi: "s < 13417 / 10000"
    using sqrt_9_5_bounds by (simp_all add: s_def)
  have rad: "sqrt (8 * (1 / 10) + 1) = s"
    by (simp add: s_def)
  have p1: "lambdas_P1 (1 / 10) 1 = Some (s / 4 - 1 / 4)"
    unfolding lambdas_P1_def np_sqrt_def rad by simp
  have tot: "ld_total (1 / 10) 1 = Some ((s / 4 - 1 / 4) + (1 / 10 / 2 - s / 8 + 1 / 8))"
    unfolding ld_total_def np_sqrt_def rad by simp
  have den: "0 < (s / 4 - 1 / 4) + (1 / 10 / 2 - s / 8 + 1 / 8)"
    using lo by simp
  define f where "f = (s / 4 - 1 / 4) / ((s / 4 - 1 / 4) + (1 / 10 / 2 - s / 8 + 1 / 8))"
  have frac: "col_P_1 (df_row_at 1 (1 / 10)) = Some f"
    using den by (simp add: df_row_at_def p1 tot np_divide_def f_def)
  have "9205 / 10000 \<le> f"
    unfolding f_def using den lo by (simp add: pos_le_divide_eq)
  moreover have "f \<le> 9215 / 10000"
    unfolding f_def using den hi by (simp add: pos_divide_le_eq)
  ultimately have "\<bar>f - 921 / 1000\<bar> \<le> 5 / 10000"
    by arith
  then show ?thesis
    unfolding frac by (simp add: approx_def)
qed

lemma last_dimer_fraction:
  "approx (5 / 10000) (col_P_2 (df_row_at 1 1000)) (957 / 1000)"
proof -
  define s where "s = sqrt 8001"
  have lo: "89448 / 1000 < s" and hi: "s < 89449 / 1000"
    using sqrt_8001_bounds by (simp_all add: s_def)
  have rad: "sqrt (8 * 1000 + 1) = s"
    by (simp add: s_def)
  have p2: "lambdas_P2 1000 1 = Some (1000 / 2 - s / 8 + 1 / 8)"
    unfolding lambdas_P2_def np_sqrt_def rad by simp
  have tot: "ld_total 1000 1 = Some ((s / 4 - 1 / 4) + (1000 / 2 - s / 8 + 1 / 8))"
    unfolding ld_total_def np_sqrt_def rad by simp
  have den: "0 < (s / 4 - 1 / 4) + (1000 / 2 - s / 8 + 1 / 8)"
    using lo by simp
  define f where "f = (1000 / 2 - s / 8 + 1 / 8) / ((s / 4 - 1 / 4) + (1000 / 2 - s / 8 + 1 / 8))"
  have frac: "col_P_2 (df_row_at 1 1000) = Some f"
    using den by (simp add: df_row_at_def p2 tot np_divide_def f_def)
  have "9565 / 10000 \<le> f"
    unfolding f_def using den hi by (simp add: pos_le_divide_eq)
  moreover have "f \<le> 9575 / 10000"
    unfolding f_def using den lo by (simp add: pos_divide_le_eq)
  ultimately have "\<bar>f - 957 / 1000\<bar> \<le> 5 / 10000"
    by arith
  then show ?thesis
    unfolding frac by (simp add: approx_def)
qed

text \<open>
  C8. The sweep of the notebook (exponents \<open>- 1\<close> and 3, that is ratios 0.1 and 1000,
  100 samples, dissociation constant 1) has 100 rows at the log-spaced total
  concentrations \<open>10 powr (- 1 + i * (4 / 99))\<close>, from 0.1 to 1000; the monomer fraction
  \<open>monomer / (monomer + dimer)\<close> of the first row is 0.921 and the dimer fraction of the
  last row is 0.957, each to three decimals.
\<close>

theorem df_scenario:
  "df = sweep 1 (- 1) 3 100
   \<and> length df = 100
   \<and> map col_PT df = map (\<lambda>i. 10 powr (- 1 + real i * (4 / 99))) [0..<100]
   \<and> col_PT (hd df) = 1 / 10
   \<and> col_PT (last df) = 1000
   \<and> approx (5 / 10000) (col_P_1 (hd df)) (921 / 1000)
   \<and> approx (5 / 10000) (col_P_2 (last df)) (957 / 1000)"
proof -
  have len: "length df = 100"
    by (simp add: df_def PT_values_def length_logspace)
  have "map col_PT df = PT_values"
    by (simp add: df_def df_row_at_def comp_def)
  also have "\<dots> = map (\<lambda>i. 10 powr (- 1 + real i * (4 / 99))) [0..<100]"
    by (rule nth_equalityI) (simp_all add: PT_values_def length_logspace logspace_nth)
  finally have xs: "map col_PT df = map (\<lambda>i. 10 powr (- 1 + real i * (4 / 99))) [0..<100]" .
  have "col_PT (hd df) = 1 / 10" and "col_PT (last df) = 1000"
    by (simp_all add: hd_df last_df df_row_at_def)
  moreover have "approx (5 / 10000) (col_P_1 (hd df)) (921 / 1000)"
    unfolding hd_df by (rule first_monomer_fraction)
  moreover have "approx (5 / 10000) (col_P_2 (last df)) (957 / 1000)"
    unfolding last_df by (rule last_dimer_fraction)
  ultimately show ?thesis
    using df_sweep len xs by simp
qed

subsection \<open>Running the sweeps again\<close>

lemma df_post_x: "map fst df_post = logspace (- 2) 2 100"
  by (simp add: df_post_def r_values_def comp_def)

lemma df_x: "map col_PT df = logspace (- 1) 3 100"
  by (simp add: df_def PT_values_def df_row_at_def comp_def)

text \<open>
  C9. Both sweeps are deterministic and can be run again: whatever the variables held
  before, a run leaves the same series in them, and a second run changes nothing; the
  series are computed by the same operations on the same literals, so they are the
  same element by element. Each has 100 samples, and its x values are in
  strictly ascending order.
\<close>

theorem sweeps_deterministic_ascending:
  "var_df (run_sweep_cell s) = var_df (run_sweep_cell s')
   \<and> var_PT_values (run_sweep_cell s) = var_PT_values (run_sweep_cell s')
   \<and> run_sweep_cell (run_sweep_cell s) = run_sweep_cell s
   \<and> length (var_df (run_sweep_cell s)) = 100
   \<and> map col_PT (var_df (run_sweep_cell s)) = var_PT_values (run_sweep_cell s)
   \<and> sorted_wrt (<) (var_PT_values (run_sweep_cell s))
   \<and> var_df_post (run_post_block t) = var_df_post (run_post_block t')
   \<and> var_r (run_post_block t) = var_r (run_post_block t')
   \<and> run_post_block (run_post_block t) = run_post_block t
   \<and> length (var_df_post (run_post_block t)) = 100
   \<and> map fst (var_df_post (run_post_block t)) = var_r (run_post_block t)
   \<and> sorted_wrt (<) (var_r (run_post_block t))"
proof -
  have a: "sorted_wrt (<) (logspace (- 1) 3 100)"
    by (rule logspace_strict) simp
  have b: "sorted_wrt (<) (logspace (- 2) 2 100)"
    by (rule logspace_strict) simp
  have "length df = 100" and "length df_post = 100"
    by (simp_all add: df_def df_post_def PT_values_def r_values_def length_logspace)
  then show ?thesis
    using a b df_x df_post_x
    by (simp add: run_sweep_cell_def run_post_block_def PT_values_def r_values_def)
qed

subsection \<open>No validation of the inputs\<close>

text \<open>
  C4, as the specification has it: a non-positive or non-finite concentration or
  dissociation constant makes the call fail with \<open>InvalidInput\<close>. It fails: the source
  checks nothing. With dissociation constant 0 the Page component returns monomer 0
  and dimer 5; with \<open>- 1\<close> both values are numpy's nan, returned and not raised; at
  ratio 0 (ligand concentration 0) the fractions are 1 and 0. This is so over the
  reals and in doubles, where a total concentration that is nan is answered with nan.
\<close>

theorem InvalidInput_counterexample:
  "Page_ans 10 0 \<noteq> Inl InvalidInput
   \<and> Page_ans 10 0 = Inr [(''P_1'', Some 0), (''P_2'', Some 5)]
   \<and> Page_ans 10 (- 1) = Inr [(''P_1'', None), (''P_2'', None)]
   \<and> fractions 0 = Inr [(''P'', Some 1), (''PL'', Some 0)]
   \<and> Page_ans_f64 (Fin 10) (Fin 0) = Inr [(''P_1'', Fin 0), (''P_2'', Fin 5)]
   \<and> Page_ans_f64 (Fin 10) (Fin (- 1)) = Inr [(''P_1'', NaN), (''P_2'', NaN)]
   \<and> Page_ans_f64 NaN (Fin 1) = Inr [(''P_1'', NaN), (''P_2'', NaN)]
   \<and> fractions_f64 (Fin 0) = Inr [(''P'', Fin 1), (''PL'', Fin 0)]"
proof -
  have "Page_ans_f64 (Fin 10) (Fin (- 1)) = Inr [(''P_1'', NaN), (''P_2'', NaN)]"
    by (rule Page_ans_f64_negative) simp
  moreover have "Page_ans_f64 NaN (Fin 1) = Inr [(''P_1'', NaN), (''P_2'', NaN)]"
    by (simp add: Page_ans_f64_defs radical_def fl_values)
  ultimately show ?thesis
    using Page_ans_f64_kD_zero fractions_f64_zero
    by (simp add: Page_ans_def lambdas_P1_def lambdas_P2_def np_sqrt_def fractions_def
        th_P_def th_PL_def np_divide_def)
qed

text \<open>
  C4, amended: neither the Page component nor the fractions of the post fail, whatever
  doubles they are given, positive and finite or not: the divisors of the Page
  component are the constants 2, 4 and 8, and numpy raises nothing. A negative
  dissociation constant is answered with nan for both concentrations.
\<close>

theorem no_error_f64:
  "\<not> isl (Page_ans_f64 PT kD)
   \<and> \<not> isl (fractions_f64 r)
   \<and> (is_negative kD \<longrightarrow> Page_ans_f64 PT kD = Inr [(''P_1'', NaN), (''P_2'', NaN)])"
proof -
  have "\<not> isl (Page_ans_f64 PT kD)"
    by (simp add: Page_ans_f64_defs)
  moreover have "\<not> isl (fractions_f64 r)"
    by (simp add: fractions_f64_def)
  ultimately show ?thesis
    using Page_ans_f64_negative [of kD PT] by simp
qed

theorem no_error_f64_witness:
  "\<not> isl (Page_ans_f64 (Fin 10) (Fin (- 1))) \<and> \<not> isl (fractions_f64 (Fin (- 1)))
   \<and> is_negative (Fin (- 1))
   \<and> Page_ans_f64 (Fin 10) (Fin (- 1)) = Inr [(''P_1'', NaN), (''P_2'', NaN)]"
  using no_error_f64 [of "Fin 10" "Fin (- 1)" "Fin (- 1)"] by simp

end
